theory Spec2Isabelle
  imports Main "HOL-Library.Sublist" "HOL-Library.Multiset" "HOL-Library.List_Lexorder"
    "HOL-Library.AList"
begin

section \<open>Python strings\<close>

text \<open>
  A Python \<open>str\<close> is a sequence of Unicode code points. A \<open>char\<close> of HOL is one byte, so
  a string is modelled as the list of its code points; \<open>u\<close> writes an ASCII literal.
\<close>

type_synonym ustr = "nat list"

definition u :: "string \<Rightarrow> ustr" where
  "u s = map of_char s"

text \<open>
  \<open>str.isspace\<close> on one code point: the set CPython uses for \<open>str.strip()\<close> and for
  \<open>\s\<close> in a \<open>str\<close> pattern of \<open>re\<close> (tab to carriage return, the four separators
  FS..US, space, NEL, NBSP, and the Unicode space separators up to U+3000).
\<close>

definition py_isspace :: "nat \<Rightarrow> bool" where
  "py_isspace c \<longleftrightarrow>
     (9 \<le> c \<and> c \<le> 13) \<or> (28 \<le> c \<and> c \<le> 32) \<or> c = 133 \<or> c = 160 \<or> c = 5760 \<or>
     (8192 \<le> c \<and> c \<le> 8202) \<or> c = 8232 \<or> c = 8233 \<or> c = 8239 \<or> c = 8287 \<or> c = 12288"

text \<open>\<open>s.replace(old, new)\<close>: every occurrence, left to right, without overlap.\<close>

function py_replace :: "ustr \<Rightarrow> ustr \<Rightarrow> ustr \<Rightarrow> ustr" where
  "py_replace old new [] = (if old = [] then new else [])"
| "py_replace old new (c # cs) =
     (if old = [] then new @ c # py_replace old new cs
      else if prefix old (c # cs) then new @ py_replace old new (drop (length old) (c # cs))
      else c # py_replace old new cs)"
  by pat_completeness auto
termination
  by (relation "measure (\<lambda>(old, new, s). length s)") auto

text \<open>\<open>s.strip()\<close>: whitespace removed at both ends.\<close>

definition py_strip :: "ustr \<Rightarrow> ustr" where
  "py_strip s = rev (dropWhile py_isspace (rev (dropWhile py_isspace s)))"

text \<open>\<open>re.sub(r"\s+", " ", s)\<close>: every maximal run of whitespace becomes one space.\<close>

function re_sub_ws :: "ustr \<Rightarrow> ustr" where
  "re_sub_ws [] = []"
| "re_sub_ws (c # cs) =
     (if py_isspace c then 32 # re_sub_ws (dropWhile py_isspace cs) else c # re_sub_ws cs)"
  by pat_completeness auto
termination
  by (relation "measure length") (auto simp: length_dropWhile_le less_Suc_eq_le)

text \<open>\<open>sep.join(xs)\<close>.\<close>

fun py_join :: "ustr \<Rightarrow> ustr list \<Rightarrow> ustr" where
  "py_join sep [] = []"
| "py_join sep [x] = x"
| "py_join sep (x # y # ys) = x @ sep @ py_join sep (y # ys)"

text \<open>\<open>old in s\<close> for strings: \<open>old\<close> occurs in \<open>s\<close> as a contiguous run.\<close>

fun py_in :: "ustr \<Rightarrow> ustr \<Rightarrow> bool" where
  "py_in old [] = (old = [])"
| "py_in old (c # cs) = (prefix old (c # cs) \<or> py_in old cs)"

section \<open>Utilities\<close>

definition normalize_query :: "ustr \<Rightarrow> ustr" where
  "normalize_query s =
     (if s = [] then []
      else py_strip (re_sub_ws
             (py_replace [12288] [32] (py_replace [10] [32] (py_replace [13] [32] s)))))"

definition truncate_str :: "ustr \<Rightarrow> nat \<Rightarrow> ustr" where
  "truncate_str s n = take n s @ (if length s > n then [8230] else [])"

text \<open>
  \<open>str(i)\<close> for a non-negative integer: its decimal digits.
\<close>

function str_nat :: "nat \<Rightarrow> ustr" where
  "str_nat n = (if n < 10 then [48 + n] else str_nat (n div 10) @ [48 + n mod 10])"
  by pat_completeness auto
termination
  by (relation "measure id") auto

declare str_nat.simps [simp del]

text \<open>
  Two functions of the Python library are taken as parameters of the operations that call
  them, so that nothing is assumed about them beyond what a theorem states:
  \<open>lower :: ustr \<Rightarrow> ustr\<close> is \<open>str.lower\<close>, and \<open>to_int :: ustr \<Rightarrow> int option\<close> is
  \<open>int(s)\<close>, \<open>None\<close> where it raises \<open>ValueError\<close>. The two instances below are the
  ASCII letters and the plain decimal numerals; they serve to run the model.
\<close>

definition ascii_lower :: "ustr \<Rightarrow> ustr" where
  "ascii_lower s = map (\<lambda>c. if 65 \<le> c \<and> c \<le> 90 then c + 32 else c) s"

definition is_digit :: "nat \<Rightarrow> bool" where
  "is_digit c \<longleftrightarrow> 48 \<le> c \<and> c \<le> 57"

definition dec_value :: "ustr \<Rightarrow> nat" where
  "dec_value s = foldl (\<lambda>a c. 10 * a + (c - 48)) 0 s"

definition dec_int :: "ustr \<Rightarrow> int option" where
  "dec_int s = (if s \<noteq> [] \<and> list_all is_digit s then Some (int (dec_value s)) else None)"

datatype error = KeyError | ValueError | IndexError | UnicodeEncodeError | StopIteration
  | ParsingError | InterpolationSyntaxError | InterpolationMissingOptionError
  | InterpolationDepthError

text \<open>A comprehension over a call that may raise: the first exception ends it.\<close>

fun collect :: "('a \<Rightarrow> error + 'b) \<Rightarrow> 'a list \<Rightarrow> error + 'b list" where
  "collect f [] = Inr []"
| "collect f (x # xs) =
     (case f x of Inl e \<Rightarrow> Inl e
      | Inr y \<Rightarrow> (case collect f xs of Inl e \<Rightarrow> Inl e | Inr ys \<Rightarrow> Inr (y # ys)))"

text \<open>
  \<open>openpyxl.utils.get_column_letter\<close>: 1 is A, 26 is Z, 27 is AA, up to 18278 (ZZZ);
  any other index raises \<open>ValueError\<close>.
\<close>

function column_letters :: "nat \<Rightarrow> ustr" where
  "column_letters n =
     (if n = 0 then []
      else if n mod 26 = 0 then column_letters (n div 26 - 1) @ [26 + 64]
      else column_letters (n div 26) @ [n mod 26 + 64])"
  by pat_completeness auto
termination
  by (relation "measure id") auto

declare column_letters.simps [simp del]

definition get_column_letter :: "nat \<Rightarrow> error + ustr" where
  "get_column_letter idx =
     (if 1 \<le> idx \<and> idx \<le> 18278 then Inr (column_letters idx) else Inl ValueError)"

text \<open>
  \<open>urllib.parse.quote(query, safe="")\<close>: the string is encoded to UTF-8 (strictly: a
  surrogate code point raises \<open>UnicodeEncodeError\<close>), and every byte that is not a letter,
  a digit or one of \<open>_ . - ~\<close> becomes \<open>%XX\<close> with upper-case hexadecimal digits.
\<close>

definition utf8_encode :: "nat \<Rightarrow> error + nat list" where
  "utf8_encode c =
     (if c < 128 then Inr [c]
      else if c < 2048 then Inr [192 + c div 64, 128 + c mod 64]
      else if 55296 \<le> c \<and> c \<le> 57343 then Inl UnicodeEncodeError
      else if c < 65536 then Inr [224 + c div 4096, 128 + (c div 64) mod 64, 128 + c mod 64]
      else if c < 1114112 then
        Inr [240 + c div 262144, 128 + (c div 4096) mod 64, 128 + (c div 64) mod 64,
             128 + c mod 64]
      else Inl UnicodeEncodeError)"

definition unreserved :: "nat \<Rightarrow> bool" where
  "unreserved b \<longleftrightarrow>
     (65 \<le> b \<and> b \<le> 90) \<or> (97 \<le> b \<and> b \<le> 122) \<or> (48 \<le> b \<and> b \<le> 57) \<or>
     b = 95 \<or> b = 46 \<or> b = 45 \<or> b = 126"

definition hex_digit :: "nat \<Rightarrow> nat" where
  "hex_digit d = (if d < 10 then 48 + d else 55 + d)"

definition quote_byte :: "nat \<Rightarrow> ustr" where
  "quote_byte b = (if unreserved b then [b] else [37, hex_digit (b div 16), hex_digit (b mod 16)])"

definition py_quote :: "ustr \<Rightarrow> error + ustr" where
  "py_quote s =
     (case collect utf8_encode s of Inl e \<Rightarrow> Inl e
      | Inr bs \<Rightarrow> Inr (concat (map quote_byte (concat bs))))"

text \<open>
  \<open>xs.sort(key=key, reverse=reverse)\<close>: a stable sort; with \<open>reverse\<close> the keys descend
  and rows with equal keys still keep their order (CPython reverses the list before and
  after the stable ascending sort).
\<close>

definition py_sort :: "('a \<Rightarrow> 'k::linorder) \<Rightarrow> bool \<Rightarrow> 'a list \<Rightarrow> 'a list" where
  "py_sort key reverse xs = (if reverse then rev (sort_key key (rev xs)) else sort_key key xs)"

section \<open>Search engines\<close>

definition DEFAULT_ENGINES :: "(ustr \<times> ustr) list" where
  "DEFAULT_ENGINES =
     [(u ''Google'', u ''https://www.google.com/search?q={query}''),
      (u ''Bing'', u ''https://www.bing.com/search?q={query}''),
      (u ''DuckDuckGo'', u ''https://duckduckgo.com/?q={query}''),
      (u ''Perplexity'', u ''https://www.perplexity.ai/search?q={query}'')]"





text \<open>
  \<open>cfg.get("general", key, fallback=fallback)\<close> on the general config file, whose two
  values are taken as they were read.
\<close>

definition cfg_get :: "ustr option \<Rightarrow> ustr \<Rightarrow> ustr" where
  "cfg_get v fallback = (case v of None \<Rightarrow> fallback | Some x \<Rightarrow> x)"



section \<open>The viewer\<close>

text \<open>
  A worksheet as lines 328 to 333 read it: \<open>max_column\<close> is \<open>ws.max_column or 0\<close> and
  \<open>cell_rows\<close> the list \<open>values\<close> of the rows of cell texts that \<open>iter_rows\<close> yields.
  A workbook maps sheet names to worksheets.
\<close>

record worksheet =
  max_column :: nat
  cell_rows :: "ustr list list"

text \<open>
  What \<open>update_status\<close> puts into the status line, part by part (the file name, which comes
  from the file dialog, is left out).
\<close>

record cell_info =
  ci_row_no :: ustr
  ci_col_name :: ustr
  ci_len :: nat
  ci_preview :: ustr

record status =
  st_sheet :: ustr
  st_shown :: nat
  st_total :: nat
  st_cell :: "cell_info option"
  st_extra :: ustr

text \<open>
  The fields of \<open>XlsxSearchViewer\<close> that the operations below read or write. The grid
  widget is \<open>tree_items\<close> (its rows, top to bottom) and \<open>tree_selection\<close> (the index of
  the selected row); the clipboard, the browser and the full-text window are the last
  thing handed to them. Column widths and the highlight frame are not modelled.
\<close>

record viewer =
  engines :: "(ustr \<times> ustr) list"
  engine_var :: ustr
  cfg_alt_engine :: "ustr option"
  wb :: "(ustr \<rightharpoonup> worksheet) option"
  sheet_var :: ustr
  headers :: "ustr list"
  rows_all :: "ustr list list"
  rows_view :: "ustr list list"
  rc_col_index :: "int option"
  sort_state :: "nat \<rightharpoonup> bool"
  filter_var :: ustr
  tree_items :: "ustr list list"
  tree_selection :: "nat option"
  status_var :: status
  clipboard :: "ustr option"
  opened_urls :: "ustr list"
  full_text :: "ustr option"
  info_shown :: bool

subsection \<open>Selection helpers\<close>

definition get_selected_values :: "viewer \<Rightarrow> ustr list" where
  "get_selected_values st =
     (case tree_selection st of None \<Rightarrow> []
      | Some i \<Rightarrow> if i < length (tree_items st) then tree_items st ! i else [])"

definition get_selected_cell_text_raw :: "viewer \<Rightarrow> ustr" where
  "get_selected_cell_text_raw st =
     (let vals = get_selected_values st
      in if vals = [] then []
         else let ci = (case rc_col_index st of Some c \<Rightarrow> c | None \<Rightarrow> 1)
              in if 0 \<le> ci \<and> ci < int (length vals) then vals ! nat ci else [])"

definition get_selected_cell_text :: "viewer \<Rightarrow> ustr" where
  "get_selected_cell_text st = normalize_query (get_selected_cell_text_raw st)"

subsection \<open>Status\<close>

definition update_status :: "ustr \<Rightarrow> viewer \<Rightarrow> viewer" where
  "update_status extra st =
     (let vals = get_selected_values st;
          cell =
            (if vals = [] then None
             else let ci = (case rc_col_index st of Some c \<Rightarrow> c | None \<Rightarrow> 1);
                      col_name = (if 0 \<le> ci \<and> ci < int (length (headers st))
                                  then headers st ! nat ci else u ''?'');
                      q = get_selected_cell_text st
                  in Some \<lparr>ci_row_no = hd vals, ci_col_name = col_name, ci_len = length q,
                           ci_preview = truncate_str q 80\<rparr>)
      in st\<lparr>status_var :=
              \<lparr>st_sheet = (if sheet_var st = [] then u ''-'' else sheet_var st),
               st_shown = length (rows_view st), st_total = length (rows_all st),
               st_cell = cell, st_extra = extra\<rparr>\<rparr>)"

subsection \<open>Rendering\<close>

text \<open>The grid is emptied and refilled from \<open>rows_view\<close>; no row of it is selected then.\<close>

definition render_table :: "viewer \<Rightarrow> viewer" where
  "render_table st = st\<lparr>tree_items := rows_view st, tree_selection := None\<rparr>"

subsection \<open>File / Sheet\<close>

fun col_empty :: "ustr list list \<Rightarrow> nat \<Rightarrow> bool" where
  "col_empty [] ci = True"
| "col_empty (r # rs) ci = (if ci < length r \<and> r ! ci \<noteq> [] then False else col_empty rs ci)"

text \<open>The loop \<open>while last_col > 0 and col_empty(last_col - 1): last_col -= 1\<close>.\<close>

fun trim_last_col :: "ustr list list \<Rightarrow> nat \<Rightarrow> nat" where
  "trim_last_col values 0 = 0"
| "trim_last_col values (Suc n) =
     (if col_empty values n then trim_last_col values n else Suc n)"

definition number_rows :: "ustr list list \<Rightarrow> ustr list list" where
  "number_rows values = map (\<lambda>(i, r). str_nat i # r) (zip [1..<Suc (length values)] values)"

definition load_sheet :: "viewer \<Rightarrow> viewer \<times> error option" where
  "load_sheet st =
     (case wb st of None \<Rightarrow> (st, None)
      | Some book \<Rightarrow>
          (case book (sheet_var st) of None \<Rightarrow> (st, Some KeyError)
           | Some ws \<Rightarrow>
               (let max_col = max_column ws;
                    last_col = trim_last_col (cell_rows ws) max_col;
                    values = map (take last_col) (cell_rows ws)
                in case collect get_column_letter [1..<Suc last_col] of
                     Inl e \<Rightarrow> (st, Some e)
                   | Inr col_letters \<Rightarrow>
                       (update_status []
                          (render_table
                             (st\<lparr>headers := u ''#'' # col_letters,
                                 rows_all := number_rows values,
                                 rows_view := number_rows values,
                                 filter_var := [],
                                 sort_state := Map.empty\<rparr>)),
                        None))))"

subsection \<open>Sort\<close>

definition key_func_0 :: "(ustr \<Rightarrow> int option) \<Rightarrow> ustr list \<Rightarrow> int" where
  "key_func_0 to_int r =
     (case r of [] \<Rightarrow> 0 | c # _ \<Rightarrow> (case to_int c of None \<Rightarrow> 0 | Some n \<Rightarrow> n))"

definition key_func :: "(ustr \<Rightarrow> ustr) \<Rightarrow> nat \<Rightarrow> ustr list \<Rightarrow> ustr" where
  "key_func lower col_index r = (if col_index < length r then lower (r ! col_index) else [])"

definition sort_label :: "bool \<Rightarrow> ustr" where
  "sort_label asc =
     [32, 12391] @ (if asc then [26119, 38918] else [38477, 38918]) @ [12477, 12540, 12488]"

text \<open>
  An exception in a callback is reported by the toolkit and the window lives on, so an
  operation returns the state it leaves with the exception, if any. The only one here is
  the header lookup for the status line, after the rows are sorted and drawn.
\<close>

definition sort_by_column ::
  "(ustr \<Rightarrow> ustr) \<Rightarrow> (ustr \<Rightarrow> int option) \<Rightarrow> nat \<Rightarrow> viewer \<Rightarrow> viewer \<times> error option" where
  "sort_by_column lower to_int col_index st =
     (if rows_view st = [] then (st, None)
      else
        let asc = (case sort_state st col_index of None \<Rightarrow> True | Some b \<Rightarrow> b);
            st1 = st\<lparr>sort_state := (sort_state st)(col_index \<mapsto> \<not> asc)\<rparr>;
            sorted_rows =
              (if col_index = 0 then py_sort (key_func_0 to_int) (\<not> asc) (rows_view st1)
               else py_sort (key_func lower col_index) (\<not> asc) (rows_view st1));
            st2 = render_table (st1\<lparr>rows_view := sorted_rows\<rparr>)
        in if col_index < length (headers st2)
           then (update_status (headers st2 ! col_index @ sort_label asc) st2, None)
           else (st2, Some IndexError))"

subsection \<open>Filter\<close>

definition apply_filter :: "(ustr \<Rightarrow> ustr) \<Rightarrow> viewer \<Rightarrow> viewer" where
  "apply_filter lower st =
     (let q = lower (py_strip (filter_var st))
      in update_status []
           (render_table
              (st\<lparr>rows_view :=
                    (if q = [] then rows_all st
                     else filter (\<lambda>r. py_in q (lower (py_join [9] r))) (rows_all st))\<rparr>)))"

definition clear_filter :: "(ustr \<Rightarrow> ustr) \<Rightarrow> viewer \<Rightarrow> viewer" where
  "clear_filter lower st = apply_filter lower (st\<lparr>filter_var := []\<rparr>)"

subsection \<open>Right-click\<close>

text \<open>
  \<open>row_id\<close> is the row under the pointer (\<open>None\<close> where \<open>identify_row\<close> gives the empty
  string) and \<open>col_id\<close> the column identifier, \<open>#1\<close> for the first displayed column.
\<close>

definition on_right_click ::
  "(ustr \<Rightarrow> int option) \<Rightarrow> nat option \<Rightarrow> ustr \<Rightarrow> viewer \<Rightarrow> viewer" where
  "on_right_click to_int row_id col_id st =
     (if row_id = None \<or> col_id = [] then st
      else st\<lparr>tree_selection := row_id,
              rc_col_index :=
                Some (case to_int (drop 1 col_id) of Some n \<Rightarrow> n - 1 | None \<Rightarrow> 1)\<rparr>)"

subsection \<open>Search\<close>

definition make_search_url :: "viewer \<Rightarrow> ustr \<Rightarrow> ustr \<Rightarrow> error + ustr" where
  "make_search_url st engine_name query =
     (case map_of DEFAULT_ENGINES (u ''Google'') of None \<Rightarrow> Inl KeyError
      | Some dflt \<Rightarrow>
          (let tpl = (case map_of (engines st) engine_name of Some t \<Rightarrow> t | None \<Rightarrow> dflt)
           in case py_quote query of Inl e \<Rightarrow> Inl e
              | Inr enc \<Rightarrow> Inr (py_replace (u ''{query}'') enc tpl)))"

definition search_msg :: ustr where
  "search_msg = [12391, 26908, 32034]"

definition copied_msg :: ustr where
  "copied_msg = [12467, 12500, 12540, 12375, 12414, 12375, 12383]"

definition open_search :: "ustr \<Rightarrow> ustr \<Rightarrow> ustr \<Rightarrow> viewer \<Rightarrow> viewer \<times> error option" where
  "open_search eng q extra st =
     (case make_search_url st eng q of Inl e \<Rightarrow> (st, Some e)
      | Inr url \<Rightarrow> (update_status extra (st\<lparr>opened_urls := opened_urls st @ [url]\<rparr>), None))"

definition search_with_engine :: "ustr \<Rightarrow> viewer \<Rightarrow> viewer \<times> error option" where
  "search_with_engine engine_name st =
     (let q = get_selected_cell_text st
      in if q = [] then (st\<lparr>info_shown := True\<rparr>, None)
         else open_search engine_name q (engine_name @ search_msg) st)"

definition search_default_engine :: "viewer \<Rightarrow> viewer \<times> error option" where
  "search_default_engine st =
     (let q = get_selected_cell_text st
      in if q = [] then (st, None)
         else open_search (engine_var st) q (engine_var st @ search_msg) st)"

definition alt_engine :: "viewer \<Rightarrow> error + ustr" where
  "alt_engine st =
     (let alt = cfg_get (cfg_alt_engine st) (u ''Perplexity'')
      in if map_of (engines st) alt \<noteq> None then Inr alt
         else (case engines st of [] \<Rightarrow> Inl StopIteration | (name, _) # _ \<Rightarrow> Inr name))"

definition search_alt_engine :: "viewer \<Rightarrow> viewer \<times> error option" where
  "search_alt_engine st =
     (let q = get_selected_cell_text st
      in if q = [] then (st, None)
         else (case alt_engine st of Inl e \<Rightarrow> (st, Some e)
               | Inr eng \<Rightarrow> open_search eng q (eng @ search_msg @ u ''(Ctrl+Enter)'') st))"

subsection \<open>Copy / Full text\<close>

definition copy_cell_text :: "viewer \<Rightarrow> viewer" where
  "copy_cell_text st =
     (let text = get_selected_cell_text_raw st
      in if text = [] then st
         else update_status copied_msg (st\<lparr>clipboard := Some text\<rparr>))"

definition copy_search_url :: "viewer \<Rightarrow> viewer \<times> error option" where
  "copy_search_url st =
     (let text = get_selected_cell_text st
      in if text = [] then (st, None)
         else (case make_search_url st (engine_var st) text of Inl e \<Rightarrow> (st, Some e)
               | Inr url \<Rightarrow>
                   (update_status (u ''URL'' @ [12434] @ copied_msg) (st\<lparr>clipboard := Some url\<rparr>),
                    None)))"

definition show_full_text :: "viewer \<Rightarrow> viewer" where
  "show_full_text st =
     (let raw = get_selected_cell_text_raw st
      in if raw = [] then st else st\<lparr>full_text := Some raw\<rparr>)"

subsection \<open>Events on a loaded sheet\<close>

text \<open>
  What the user can do to the rows of a loaded sheet: leave a text in the filter entry
  (a key release then calls \<open>apply_filter\<close>), press the clear button, click a header.
\<close>

datatype event = KeyRelease ustr | ClearButton | HeaderClick nat

fun handle :: "(ustr \<Rightarrow> ustr) \<Rightarrow> (ustr \<Rightarrow> int option) \<Rightarrow> viewer \<Rightarrow> event \<Rightarrow> viewer" where
  "handle lower to_int st (KeyRelease text) = apply_filter lower (st\<lparr>filter_var := text\<rparr>)"
| "handle lower to_int st ClearButton = clear_filter lower st"
| "handle lower to_int st (HeaderClick c) = fst (sort_by_column lower to_int c st)"

definition run :: "(ustr \<Rightarrow> ustr) \<Rightarrow> (ustr \<Rightarrow> int option) \<Rightarrow> viewer \<Rightarrow> event list \<Rightarrow> viewer" where
  "run lower to_int st evs = foldl (handle lower to_int) st evs"

subsection \<open>A small workbook to run the model on\<close>

text \<open>
  Three rows; columns D and E are empty in every row, column C is not.
\<close>

definition demo_sheet :: worksheet where
  "demo_sheet =
     \<lparr>max_column = 5,
      cell_rows = [[u ''Name'', u ''City'', u ''Note'', [], []],
                   [u ''Ada'', u ''Paris'', [], [], []],
                   [u ''Bob'', u ''Oslo'', u ''x 2'', [], []]]\<rparr>"

definition demo_book :: "ustr \<rightharpoonup> worksheet" where
  "demo_book = [u ''Sheet1'' \<mapsto> demo_sheet]"

definition demo_start :: viewer where
  "demo_start =
     \<lparr>engines = DEFAULT_ENGINES, engine_var = u ''Google'', cfg_alt_engine = None,
      wb = Some demo_book, sheet_var = u ''Sheet1'', headers = [], rows_all = [],
      rows_view = [], rc_col_index = None, sort_state = Map.empty, filter_var = [],
      tree_items = [], tree_selection = None,
      status_var = \<lparr>st_sheet = u ''-'', st_shown = 0, st_total = 0, st_cell = None,
                     st_extra = []\<rparr>,
      clipboard = None, opened_urls = [], full_text = None, info_shown = False\<rparr>"

definition demo_rows :: "ustr list list" where
  "demo_rows = [[[49], u ''Name'', u ''City'', u ''Note''],
                [[50], u ''Ada'', u ''Paris'', []],
                [[51], u ''Bob'', u ''Oslo'', u ''x 2'']]"

definition demo_loaded :: viewer where
  "demo_loaded = fst (load_sheet demo_start)"

text \<open>The demo sheet loaded, then a right-click on the second row in the third displayed column.\<close>

definition demo_clicked :: viewer where
  "demo_clicked = on_right_click dec_int (Some 1) (u ''#3'') demo_loaded"

text \<open>The demo sheet loaded, with its second row selected by a left click.\<close>

definition demo_selected :: viewer where
  "demo_selected = demo_loaded\<lparr>tree_selection := Some 1\<rparr>"



text \<open>
  A sheet without a recorded dimension: \<open>ws.max_column\<close> is \<open>None\<close>, so \<open>max_col\<close> is 0,
  and \<open>iter_rows\<close> yields the rows with all their cells.
\<close>

definition unsized_sheet :: worksheet where
  "unsized_sheet =
     \<lparr>max_column = 0,
      cell_rows = [[u ''Name'', u ''City'', u ''Note''], [u ''Ada'', u ''Paris'', []]]\<rparr>"

definition unsized_start :: viewer where
  "unsized_start = demo_start\<lparr>wb := Some [u ''Sheet1'' \<mapsto> unsized_sheet]\<rparr>"

section \<open>Properties of strings used in the statements\<close>

text \<open>
  \<open>tidy\<close>: the only whitespace is the ordinary space, and no space is followed by
  whitespace. \<open>trimmed\<close>: no whitespace at either end.
\<close>

fun tidy :: "ustr \<Rightarrow> bool" where
  "tidy [] = True"
| "tidy (c # cs) =
     ((py_isspace c \<longrightarrow> c = 32 \<and> (case cs of [] \<Rightarrow> True | d # _ \<Rightarrow> \<not> py_isspace d)) \<and>
      tidy cs)"

definition trimmed :: "ustr \<Rightarrow> bool" where
  "trimmed s \<longleftrightarrow> (s \<noteq> [] \<longrightarrow> \<not> py_isspace (hd s) \<and> \<not> py_isspace (last s))"

text \<open>
  Statements about sorting by a column speak of the key of a row for that column: the
  integer key of column 0, the lower-cased text key of any other column.
\<close>

definition same_key :: "(ustr \<Rightarrow> ustr) \<Rightarrow> (ustr \<Rightarrow> int option) \<Rightarrow> nat \<Rightarrow> ustr list \<Rightarrow> ustr list \<Rightarrow> bool" where
  "same_key lower to_int col r r' \<longleftrightarrow>
     (if col = 0 then key_func_0 to_int r' = key_func_0 to_int r
      else key_func lower col r' = key_func lower col r)"

definition distinct_keys :: "(ustr \<Rightarrow> ustr) \<Rightarrow> (ustr \<Rightarrow> int option) \<Rightarrow> nat \<Rightarrow> ustr list list \<Rightarrow> bool" where
  "distinct_keys lower to_int col rows \<longleftrightarrow>
     (if col = 0 then distinct (map (key_func_0 to_int) rows)
      else distinct (map (key_func lower col) rows))"

definition keys_reversed :: "(ustr \<Rightarrow> ustr) \<Rightarrow> (ustr \<Rightarrow> int option) \<Rightarrow> nat \<Rightarrow> ustr list list \<Rightarrow> ustr list list \<Rightarrow> bool" where
  "keys_reversed lower to_int col rows rows' \<longleftrightarrow>
     (if col = 0 then map (key_func_0 to_int) rows' = rev (map (key_func_0 to_int) rows)
      else map (key_func lower col) rows' = rev (map (key_func lower col) rows))"

definition keys_ascending :: "(ustr \<Rightarrow> ustr) \<Rightarrow> (ustr \<Rightarrow> int option) \<Rightarrow> nat \<Rightarrow> ustr list list \<Rightarrow> bool" where
  "keys_ascending lower to_int col rows \<longleftrightarrow>
     (if col = 0 then sorted (map (key_func_0 to_int) rows)
      else sorted (map (key_func lower col) rows))"

text \<open>The number of columns a sheet keeps when it is loaded.\<close>

definition kept_columns :: "worksheet \<Rightarrow> nat" where
  "kept_columns ws = trim_last_col (cell_rows ws) (max_column ws)"

text \<open>The cell of the selected row in the first data column, empty if the row has none.\<close>

definition first_data_cell :: "viewer \<Rightarrow> ustr" where
  "first_data_cell st =
     (if 1 < length (get_selected_values st) then get_selected_values st ! 1 else [])"









section \<open>The query normalizer\<close>

lemma py_replace_absent: "a \<notin> set s \<Longrightarrow> py_replace [a] [b] s = s"
  by (induction s) simp_all

lemma dropWhile_ws_cases:
  "dropWhile py_isspace cs = [] \<or> (\<exists>d ds. dropWhile py_isspace cs = d # ds \<and> \<not> py_isspace d)"
  by (induction cs) simp_all

lemma tidy_re_sub_ws: "tidy (re_sub_ws s)"
proof (induction s rule: re_sub_ws.induct)
  case 1
  show ?case by simp
next
  case (2 c cs)
  show ?case
  proof (cases "py_isspace c")
    case False
    with 2 show ?thesis by simp
  next
    case True
    define r where "r = dropWhile py_isspace cs"
    have ih: "tidy (re_sub_ws r)" using 2(1) True by (simp add: r_def)
    have e: "re_sub_ws (c # cs) = 32 # re_sub_ws r" using True by (simp add: r_def)
    have "r = [] \<or> (\<exists>d ds. r = d # ds \<and> \<not> py_isspace d)"
      unfolding r_def by (rule dropWhile_ws_cases)
    then show ?thesis
    proof
      assume "r = []"
      then have "tidy (32 # re_sub_ws r)" by simp
      then show ?thesis by (simp only: e)
    next
      assume "\<exists>d ds. r = d # ds \<and> \<not> py_isspace d"
      then obtain d ds where r: "r = d # ds" and nd: "\<not> py_isspace d" by blast
      from nd have "re_sub_ws r = d # re_sub_ws ds" by (simp add: r)
      with ih nd have "tidy (32 # re_sub_ws r)" by simp
      then show ?thesis by (simp only: e)
    qed
  qed
qed

lemma re_sub_ws_tidy: "tidy s \<Longrightarrow> re_sub_ws s = s"
proof (induction s)
  case Nil
  show ?case by simp
next
  case (Cons c cs)
  then show ?case by (cases cs) auto
qed

lemma tidy_append: "tidy (xs @ ys) \<Longrightarrow> tidy xs \<and> tidy ys"
proof (induction xs)
  case Nil
  then show ?case by simp
next
  case (Cons x xs)
  then show ?case by (cases xs) auto
qed

lemma rev_dropWhile_rev: "rev (dropWhile P (rev xs)) @ rev (takeWhile P (rev xs)) = xs"
proof -
  have "rev (takeWhile P (rev xs) @ dropWhile P (rev xs)) = rev (rev xs)"
    by (simp only: takeWhile_dropWhile_id)
  then show ?thesis by (simp only: rev_append rev_rev_ident)
qed

lemma py_strip_infix: "\<exists>a b. s = a @ py_strip s @ b"
proof -
  define d where "d = dropWhile py_isspace s"
  have 1: "s = takeWhile py_isspace s @ d" by (simp add: d_def)
  have 2: "py_strip s @ rev (takeWhile py_isspace (rev d)) = d"
    unfolding py_strip_def d_def by (rule rev_dropWhile_rev)
  from 1 2 have "s = takeWhile py_isspace s @ py_strip s @ rev (takeWhile py_isspace (rev d))"
    by simp
  then show ?thesis by blast
qed

lemma tidy_py_strip:
  assumes "tidy s"
  shows "tidy (py_strip s)"
proof -
  obtain a b where "s = a @ py_strip s @ b" using py_strip_infix by blast
  with assms have "tidy (a @ py_strip s @ b)" by simp
  then have "tidy (py_strip s @ b)" using tidy_append by blast
  then show ?thesis using tidy_append by blast
qed

lemma last_dropWhile_ne: "dropWhile P xs \<noteq> [] \<Longrightarrow> last (dropWhile P xs) = last xs"
  by (induction xs) (auto split: if_splits)

lemma trimmed_py_strip: "trimmed (py_strip s)"
proof -
  define d where "d = dropWhile py_isspace s"
  define w where "w = dropWhile py_isspace (rev d)"
  have ps: "py_strip s = rev w" by (simp add: py_strip_def d_def w_def)
  show ?thesis
  proof (cases "w = []")
    case True
    then show ?thesis by (simp add: ps trimmed_def)
  next
    case False
    have hw: "\<not> py_isspace (hd w)" using False unfolding w_def by (rule hd_dropWhile)
    have lw: "last w = last (rev d)" using False unfolding w_def by (rule last_dropWhile_ne)
    have dne: "d \<noteq> []" using False by (auto simp: w_def)
    have hdd: "\<not> py_isspace (hd d)" using dne unfolding d_def by (rule hd_dropWhile)
    have "last (rev d) = hd d" using dne by (cases d) simp_all
    with lw hdd have 1: "\<not> py_isspace (last w)" by simp
    have 2: "hd (rev w) = last w" using False by (induction w) (simp_all)
    have 3: "last (rev w) = hd w" using False by (cases w) simp_all
    show ?thesis using False hw 1 by (simp add: ps trimmed_def 2 3)
  qed
qed

lemma dropWhile_hd_id: "s \<noteq> [] \<Longrightarrow> \<not> P (hd s) \<Longrightarrow> dropWhile P s = s"
  by (cases s) simp_all

lemma py_strip_trimmed:
  assumes "trimmed s"
  shows "py_strip s = s"
proof (cases "s = []")
  case True
  then show ?thesis by (simp add: py_strip_def)
next
  case False
  with assms have h: "\<not> py_isspace (hd s)" and l: "\<not> py_isspace (last s)"
    by (simp_all add: trimmed_def)
  have 1: "dropWhile py_isspace s = s" using False h by (rule dropWhile_hd_id)
  have "hd (rev s) = last s" using False by (induction s) simp_all
  with l have "\<not> py_isspace (hd (rev s))" by simp
  moreover have "rev s \<noteq> []" using False by simp
  ultimately have 2: "dropWhile py_isspace (rev s) = rev s" by (intro dropWhile_hd_id)
  show ?thesis by (simp add: py_strip_def 1 2)
qed

lemma tidy_spaces: "tidy s \<Longrightarrow> c \<in> set s \<Longrightarrow> py_isspace c \<Longrightarrow> c = 32"
  by (induction s) auto

lemma normal_fixed:
  assumes "tidy s" "trimmed s"
  shows "normalize_query s = s"
proof -
  have "py_isspace 13" by (simp add: py_isspace_def)
  with tidy_spaces [OF assms(1), of 13] have a: "13 \<notin> set s" by auto
  have "py_isspace 10" by (simp add: py_isspace_def)
  with tidy_spaces [OF assms(1), of 10] have b: "10 \<notin> set s" by auto
  have "py_isspace 12288" by (simp add: py_isspace_def)
  with tidy_spaces [OF assms(1), of 12288] have c: "12288 \<notin> set s" by auto
  have r: "py_replace [12288] [32] (py_replace [10] [32] (py_replace [13] [32] s)) = s"
    using a b c by (simp add: py_replace_absent)
  show ?thesis using assms by (simp add: normalize_query_def r re_sub_ws_tidy py_strip_trimmed)
qed

lemma normalize_normal: "tidy (normalize_query s) \<and> trimmed (normalize_query s)"
proof (cases "s = []")
  case True
  then show ?thesis by (simp add: normalize_query_def trimmed_def)
next
  case False
  then show ?thesis
    using tidy_py_strip [OF tidy_re_sub_ws] trimmed_py_strip
    by (simp add: normalize_query_def)
qed

lemma nonspace_py_replace:
  "py_isspace a \<Longrightarrow> py_isspace b \<Longrightarrow>
   filter (\<lambda>c. \<not> py_isspace c) (py_replace [a] [b] s) = filter (\<lambda>c. \<not> py_isspace c) s"
  by (induction s) auto

lemma nonspace_dropWhile:
  "filter (\<lambda>c. \<not> py_isspace c) (dropWhile py_isspace s) = filter (\<lambda>c. \<not> py_isspace c) s"
  by (induction s) simp_all

lemma nonspace_re_sub_ws:
  "filter (\<lambda>c. \<not> py_isspace c) (re_sub_ws s) = filter (\<lambda>c. \<not> py_isspace c) s"
proof (induction s rule: re_sub_ws.induct)
  case 1
  show ?case by simp
next
  case (2 c cs)
  have "py_isspace 32" by (simp add: py_isspace_def)
  with 2 show ?case by (cases "py_isspace c") (simp_all add: nonspace_dropWhile)
qed

lemma nonspace_py_strip:
  "filter (\<lambda>c. \<not> py_isspace c) (py_strip s) = filter (\<lambda>c. \<not> py_isspace c) s"
proof -
  have "filter (\<lambda>c. \<not> py_isspace c) (py_strip s)
      = rev (filter (\<lambda>c. \<not> py_isspace c) (dropWhile py_isspace (rev (dropWhile py_isspace s))))"
    by (simp only: py_strip_def rev_filter)
  also have "\<dots> = rev (filter (\<lambda>c. \<not> py_isspace c) (rev (dropWhile py_isspace s)))"
    by (simp only: nonspace_dropWhile)
  also have "\<dots> = filter (\<lambda>c. \<not> py_isspace c) (dropWhile py_isspace s)"
    by (simp only: rev_filter rev_rev_ident)
  finally show ?thesis by (simp only: nonspace_dropWhile)
qed

lemma nonspace_normalize_query:
  "filter (\<lambda>c. \<not> py_isspace c) (normalize_query s) = filter (\<lambda>c. \<not> py_isspace c) s"
proof -
  have ws: "py_isspace 13" "py_isspace 10" "py_isspace 12288" "py_isspace 32"
    by (simp_all add: py_isspace_def)
  show ?thesis
    by (simp add: normalize_query_def nonspace_py_strip nonspace_re_sub_ws
        nonspace_py_replace ws)
qed

text \<open>
  C6. The query normalizer is idempotent on every string. Its result holds the characters
  of its argument that are not whitespace, in order, separated by single ordinary spaces
  where whitespace stood between them, with none at the ends (so carriage return, line
  feed and full-width space have become spaces, runs are collapsed and the ends stripped);
  \<open>normalize("a\r\nb\u3000c")\<close> is \<open>"a b c"\<close>.
\<close>

theorem normalize_query_idempotent:
  "normalize_query (normalize_query s) = normalize_query s \<and>
   tidy (normalize_query s) \<and> trimmed (normalize_query s) \<and>
   filter (\<lambda>c. \<not> py_isspace c) (normalize_query s) = filter (\<lambda>c. \<not> py_isspace c) s \<and>
   normalize_query [97, 13, 10, 98, 12288, 99] = u ''a b c''"
proof -
  have "normalize_query [97, 13, 10, 98, 12288, 99] = u ''a b c''"
    by (simp add: normalize_query_def py_strip_def py_isspace_def u_def)
  moreover have "normalize_query (normalize_query s) = normalize_query s"
    using normal_fixed normalize_normal by blast
  ultimately show ?thesis
    using normalize_normal nonspace_normalize_query by blast
qed

theorem normalize_query_idempotent_witness:
  "normalize_query (normalize_query [32, 97, 9, 13, 98, 12288]) = [97, 32, 98] \<and>
   normalize_query [32, 97, 9, 13, 98, 12288] = [97, 32, 98] \<and>
   tidy [97, 32, 98] \<and> trimmed [97, 32, 98]"
proof -
  have e: "normalize_query [32, 97, 9, 13, 98, 12288] = [97, 32, 98]"
    by (simp add: normalize_query_def py_strip_def py_isspace_def)
  show ?thesis
    using normalize_query_idempotent [of "[32, 97, 9, 13, 98, 12288]"] by (simp add: e)
qed

section \<open>Frame lemmas and the demo workbook\<close>

lemma py_in_iff: "py_in old s \<longleftrightarrow> (\<exists>ps ss. s = ps @ old @ ss)"
proof -
  have "py_in old s \<longleftrightarrow> sublist old s"
    by (induction s) (simp_all add: sublist_Cons_right)
  then show ?thesis by (simp add: sublist_def)
qed

lemma update_status_fields [simp]:
  "rows_view (update_status e st) = rows_view st"
  "rows_all (update_status e st) = rows_all st"
  "rc_col_index (update_status e st) = rc_col_index st"
  "sort_state (update_status e st) = sort_state st"
  "filter_var (update_status e st) = filter_var st"
  "tree_selection (update_status e st) = tree_selection st"
  "tree_items (update_status e st) = tree_items st"
  "headers (update_status e st) = headers st"
  "clipboard (update_status e st) = clipboard st"
  "opened_urls (update_status e st) = opened_urls st"
  "full_text (update_status e st) = full_text st"
  by (simp_all add: update_status_def Let_def)

lemma render_table_fields [simp]:
  "rows_view (render_table st) = rows_view st"
  "rows_all (render_table st) = rows_all st"
  "rc_col_index (render_table st) = rc_col_index st"
  "sort_state (render_table st) = sort_state st"
  "filter_var (render_table st) = filter_var st"
  "tree_selection (render_table st) = None"
  "tree_items (render_table st) = rows_view st"
  "headers (render_table st) = headers st"
  by (simp_all add: render_table_def)

lemma apply_filter_rows_all [simp]: "rows_all (apply_filter lower st) = rows_all st"
  by (simp add: apply_filter_def Let_def)

lemma split_exists: "\<exists>ps ss. x = ps @ ss"
  by (rule exI [of _ "[]"]) simp

lemma apply_filter_view:
  "rows_view (apply_filter lower st) =
     filter (\<lambda>r. \<exists>ps ss. lower (py_join [9] r) = ps @ lower (py_strip (filter_var st)) @ ss)
       (rows_all st)"
  by (simp add: apply_filter_def Let_def py_in_iff split_exists)

lemma demo_trim: "trim_last_col (cell_rows demo_sheet) (max_column demo_sheet) = 3"
  by (simp add: demo_sheet_def u_def eval_nat_numeral)

lemma demo_letters: "collect get_column_letter [1..<Suc 3] = Inr [[65], [66], [67]]"
  by (simp add: upt_rec get_column_letter_def column_letters.simps)

lemma demo_number: "number_rows [[a1, b1, c1], [a2, b2, c2], [a3, b3, c3]] = [[[49], a1, b1, c1], [[50], a2, b2, c2], [[51], a3, b3, c3]]"
  by (simp add: number_rows_def upt_rec str_nat.simps)

lemma demo_fields:
  "wb demo_start = Some demo_book" "sheet_var demo_start = u ''Sheet1''"
  "demo_book (u ''Sheet1'') = Some demo_sheet"
  by (simp_all add: demo_start_def demo_book_def)

lemma demo_values:
  "map (take 3) (cell_rows demo_sheet) =
     [[u ''Name'', u ''City'', u ''Note''], [u ''Ada'', u ''Paris'', []],
      [u ''Bob'', u ''Oslo'', u ''x 2'']]"
  by (simp add: demo_sheet_def)

lemma demo_load:
  "load_sheet demo_start =
     (update_status [] (render_table (demo_start\<lparr>headers := [u ''#'', [65], [66], [67]],
        rows_all := demo_rows, rows_view := demo_rows, filter_var := [], sort_state := Map.empty\<rparr>)), None)"
  by (simp only: load_sheet_def demo_fields option.case Let_def demo_trim demo_letters sum.case demo_values demo_number demo_rows_def)

lemma dec_value_snoc: "dec_value (s @ [c]) = 10 * dec_value s + (c - 48)"
  by (simp add: dec_value_def)

lemma dec_value_str_nat: "dec_value (str_nat n) = n"
proof (induction n rule: str_nat.induct)
  case (1 n)
  show ?case
  proof (cases "n < 10")
    case True
    then show ?thesis by (simp add: str_nat.simps [of n] dec_value_def)
  next
    case False
    with 1 have "dec_value (str_nat (n div 10)) = n div 10" by simp
    with False show ?thesis by (simp add: str_nat.simps [of n] dec_value_snoc)
  qed
qed

lemma str_nat_inj: "str_nat m = str_nat n \<Longrightarrow> m = n"
proof -
  assume "str_nat m = str_nat n"
  then have "dec_value (str_nat m) = dec_value (str_nat n)" by simp
  then show "m = n" by (simp only: dec_value_str_nat)
qed

lemma digits_str_nat: "list_all is_digit (str_nat n)"
proof (induction n rule: str_nat.induct)
  case (1 n)
  show ?case
  proof (cases "n < 10")
    case True
    then have "is_digit (48 + n)" by (simp add: is_digit_def)
    with True show ?thesis by (simp add: str_nat.simps [of n])
  next
    case False
    with 1 have a: "list_all is_digit (str_nat (n div 10))" by simp
    have "n mod 10 < 10" by simp
    then have b: "is_digit (48 + n mod 10)" unfolding is_digit_def by linarith
    from False a b show ?thesis by (simp add: str_nat.simps [of n])
  qed
qed

lemma map_hd_number_rows: "map hd (number_rows vs) = map str_nat [1..<Suc (length vs)]"
proof -
  have l: "length [1..<Suc (length vs)] = length vs" by (simp del: upt_Suc)
  have "map hd (number_rows vs) = map (\<lambda>p. str_nat (fst p)) (zip [1..<Suc (length vs)] vs)"
    by (simp add: number_rows_def case_prod_beta)
  also have "\<dots> = map str_nat (map fst (zip [1..<Suc (length vs)] vs))"
    by (simp add: comp_def)
  also have "map fst (zip [1..<Suc (length vs)] vs) = [1..<Suc (length vs)]"
    using l by (rule map_fst_zip)
  finally show ?thesis .
qed

lemma load_sheet_loaded:
  assumes "wb st0 = Some book" "book (sheet_var st0) = Some ws" "load_sheet st0 = (st, None)"
  shows "\<exists>cols. collect get_column_letter
                  [1..<Suc (trim_last_col (cell_rows ws) (max_column ws))] = Inr cols \<and>
           st = update_status []
                  (render_table
                     (st0\<lparr>headers := u ''#'' # cols,
                          rows_all := number_rows (map (take (trim_last_col (cell_rows ws) (max_column ws))) (cell_rows ws)),
                          rows_view := number_rows (map (take (trim_last_col (cell_rows ws) (max_column ws))) (cell_rows ws)),
                          filter_var := [],
                          sort_state := Map.empty\<rparr>))"
  using assms by (auto simp only: load_sheet_def option.case Let_def prod.inject split: sum.splits)

lemma length_number_rows [simp]: "length (number_rows vs) = length vs"
  by (simp add: number_rows_def del: upt_Suc)

lemma distinct_map_str_nat: "distinct xs \<Longrightarrow> distinct (map str_nat xs)"
  by (simp add: distinct_map inj_on_def) (blast dest: str_nat_inj)

lemma mset_py_sort [simp]: "mset (py_sort k r xs) = mset xs"
  by (simp add: py_sort_def)

lemma sort_by_column_rows_all [simp]:
  "rows_all (fst (sort_by_column lower to_int c st)) = rows_all st"
  by (simp add: sort_by_column_def Let_def)

lemma sort_by_column_mset [simp]:
  "mset (rows_view (fst (sort_by_column lower to_int c st))) = mset (rows_view st)"
  by (simp add: sort_by_column_def Let_def)

lemma handle_rows_all [simp]: "rows_all (handle lower to_int st ev) = rows_all st"
  by (cases ev) (simp_all add: clear_filter_def)

lemma apply_filter_subset:
  "mset (rows_view (apply_filter lower st)) \<subseteq># mset (rows_all st)"
  by (simp add: apply_filter_def Let_def)

lemma handle_view:
  assumes "mset (rows_view st) \<subseteq># mset (rows_all st)"
  shows "mset (rows_view (handle lower to_int st ev)) \<subseteq># mset (rows_all st)"
proof (cases ev)
  case (KeyRelease t)
  have "mset (rows_view (apply_filter lower (st\<lparr>filter_var := t\<rparr>)))
          \<subseteq># mset (rows_all (st\<lparr>filter_var := t\<rparr>))"
    by (rule apply_filter_subset)
  with KeyRelease show ?thesis by simp
next
  case ClearButton
  have "mset (rows_view (apply_filter lower (st\<lparr>filter_var := []\<rparr>)))
          \<subseteq># mset (rows_all (st\<lparr>filter_var := []\<rparr>))"
    by (rule apply_filter_subset)
  with ClearButton show ?thesis by (simp add: clear_filter_def)
next
  case (HeaderClick c)
  with assms show ?thesis by simp
qed

lemma run_invariant:
  "mset (rows_view st) \<subseteq># mset (rows_all st) \<Longrightarrow>
   rows_all (run lower to_int st evs) = rows_all st \<and>
   mset (rows_view (run lower to_int st evs)) \<subseteq># mset (rows_all st)"
proof (induction evs arbitrary: st)
  case Nil
  then show ?case by (simp add: run_def)
next
  case (Cons ev evs)
  have "mset (rows_view (handle lower to_int st ev)) \<subseteq># mset (rows_all (handle lower to_int st ev))"
    using handle_view [OF Cons.prems] by simp
  from Cons.IH [OF this] show ?case by (simp add: run_def)
qed

lemma demo_loaded_fields:
  "rows_all demo_loaded = demo_rows" "rows_view demo_loaded = demo_rows"
  "headers demo_loaded = [u ''#'', [65], [66], [67]]"
  "load_sheet demo_start = (demo_loaded, None)"
  by (simp_all add: demo_loaded_def demo_load)

lemma ascii_lower_Nil: "ascii_lower [] = []"
  by (simp add: ascii_lower_def)

lemma py_join_Cons: "py_join sep (x # xs) = x @ (if xs = [] then [] else sep @ py_join sep xs)"
  by (cases xs) simp_all

lemma loaded_rows:
  assumes "wb st0 = Some book" and "book (sheet_var st0) = Some ws"
    and "load_sheet st0 = (st, None)"
  shows "length (rows_all st) = length (cell_rows ws)"
    and "rows_view st = rows_all st"
    and "\<And>i. i < length (rows_all st) \<Longrightarrow> \<exists>cells. rows_all st ! i = str_nat (Suc i) # cells"
    and "distinct (map hd (rows_all st))"
proof -
  define vs where "vs = map (take (trim_last_col (cell_rows ws) (max_column ws))) (cell_rows ws)"
  from load_sheet_loaded [OF assms] have ra: "rows_all st = number_rows vs"
    and rv: "rows_view st = number_rows vs"
    by (auto simp: vs_def)
  show "length (rows_all st) = length (cell_rows ws)" by (simp add: ra vs_def)
  show "rows_view st = rows_all st" by (simp add: ra rv)
  show "\<exists>cells. rows_all st ! i = str_nat (Suc i) # cells" if "i < length (rows_all st)" for i
  proof -
    from that have i: "i < length vs" by (simp add: ra)
    then have "number_rows vs ! i = str_nat (Suc i) # vs ! i"
      by (simp add: number_rows_def del: upt_Suc)
    then show ?thesis by (simp add: ra)
  qed
  have "distinct (map str_nat [1..<Suc (length vs)])"
    by (rule distinct_map_str_nat) simp
  then show "distinct (map hd (rows_all st))" by (simp only: ra map_hd_number_rows)
qed

section \<open>Row numbers, filter and sort\<close>

text \<open>
  C1. After a sheet is loaded, row \<open>i\<close> of \<open>rows_all\<close> (counting from 0) starts with the
  decimal numeral of \<open>i + 1\<close>, and these row numbers are pairwise distinct. Whatever
  sequence of filter texts, clear clicks and header clicks follows, \<open>rows_all\<close> stays as
  loaded and \<open>rows_view\<close> is a rearrangement of some of the rows of \<open>rows_all\<close>, each row
  whole, so with the row number it was loaded with.
\<close>

theorem row_numbers_preserved:
  assumes "wb st0 = Some book" and "book (sheet_var st0) = Some ws"
    and "load_sheet st0 = (st, None)"
  shows "length (rows_all st) = length (cell_rows ws) \<and>
         (\<forall>i < length (rows_all st). \<exists>cells. rows_all st ! i = str_nat (Suc i) # cells) \<and>
         distinct (map hd (rows_all st)) \<and>
         rows_all (run lower to_int st evs) = rows_all st \<and>
         mset (rows_view (run lower to_int st evs)) \<subseteq># mset (rows_all st)"
proof -
  have "mset (rows_view st) \<subseteq># mset (rows_all st)"
    by (simp add: loaded_rows(2) [OF assms])
  from run_invariant [OF this] loaded_rows(1,3,4) [OF assms] show ?thesis by blast
qed

theorem row_numbers_preserved_witness:
  "wb demo_start = Some demo_book \<and> demo_book (sheet_var demo_start) = Some demo_sheet \<and>
   load_sheet demo_start = (demo_loaded, None) \<and>
   map hd (rows_all demo_loaded) = [[49], [50], [51]] \<and>
   distinct (map hd (rows_all demo_loaded)) \<and>
   mset (rows_view (run ascii_lower dec_int demo_loaded [KeyRelease (u ''o''), HeaderClick 2]))
     \<subseteq># mset (rows_all demo_loaded)"
proof -
  have a: "wb demo_start = Some demo_book" by (simp add: demo_fields)
  have b: "demo_book (sheet_var demo_start) = Some demo_sheet" by (simp add: demo_fields)
  have c: "load_sheet demo_start = (demo_loaded, None)" by (simp add: demo_loaded_fields)
  have d: "map hd (rows_all demo_loaded) = [[49], [50], [51]]"
    by (simp add: demo_loaded_fields demo_rows_def)
  from row_numbers_preserved [OF a b c, of ascii_lower dec_int "[KeyRelease (u ''o''), HeaderClick 2]"]
    a b c d show ?thesis by simp
qed

text \<open>
  C2. \<open>apply_filter\<close> leaves \<open>rows_all\<close> alone. If the filter text is empty or blank
  after trimming, \<open>rows_view\<close> becomes \<open>rows_all\<close>. Otherwise \<open>rows_view\<close> holds, in the
  order of \<open>rows_all\<close>, exactly the rows whose cells joined by tabs and lower-cased contain
  the trimmed, lower-cased text as a contiguous run. (The only fact used about
  \<open>str.lower\<close> is that it maps the empty string to itself.)
\<close>

theorem apply_filter_spec:
  assumes "lower [] = []"
  shows "rows_all (apply_filter lower st) = rows_all st \<and>
         (py_strip (filter_var st) = [] \<longrightarrow> rows_view (apply_filter lower st) = rows_all st) \<and>
         (py_strip (filter_var st) \<noteq> [] \<longrightarrow>
            rows_view (apply_filter lower st) =
              filter (\<lambda>r. \<exists>ps ss. lower (py_join [9] r)
                                    = ps @ lower (py_strip (filter_var st)) @ ss)
                (rows_all st))"
  using assms by (simp add: apply_filter_view split_exists)

theorem apply_filter_spec_witness:
  "ascii_lower [] = [] \<and> py_strip (u '' pAris '') \<noteq> [] \<and>
   rows_view (apply_filter ascii_lower (demo_loaded\<lparr>filter_var := u '' pAris ''\<rparr>))
     = [[[50], u ''Ada'', u ''Paris'', []]] \<and>
   rows_view (apply_filter ascii_lower (demo_loaded\<lparr>filter_var := u ''  ''\<rparr>)) = rows_all demo_loaded"
proof -
  have s: "py_strip (u '' pAris '') = u ''pAris''" "py_strip (u ''  '') = []"
    by (simp_all add: py_strip_def py_isspace_def u_def)
  have e: "rows_view (apply_filter ascii_lower (demo_loaded\<lparr>filter_var := u '' pAris ''\<rparr>))
     = [[[50], u ''Ada'', u ''Paris'', []]]"
    by (simp add: apply_filter_def Let_def s demo_loaded_fields demo_rows_def)
       (simp add: ascii_lower_def u_def)
  from apply_filter_spec [of ascii_lower "demo_loaded\<lparr>filter_var := u ''  ''\<rparr>", OF ascii_lower_Nil]
  have "rows_view (apply_filter ascii_lower (demo_loaded\<lparr>filter_var := u ''  ''\<rparr>)) = rows_all demo_loaded"
    by (simp add: s)
  moreover have "u ''pAris'' \<noteq> []" by (simp add: u_def)
  ultimately show ?thesis using e s ascii_lower_Nil by simp
qed

text \<open>
  C9. The joined row starts with the row number, so a filter text that is not blank and
  occurs in the row number of a loaded row keeps that row, whatever its cells hold.
  (\<open>str.lower\<close> is only assumed to leave a leading run of decimal digits, and the
  empty string, as they are.)
\<close>

theorem filter_matches_row_number:
  assumes low0: "lower [] = []"
    and lowd: "\<And>d t. list_all is_digit d \<Longrightarrow> lower (d @ t) = d @ lower t"
    and "wb st0 = Some book" and "book (sheet_var st0) = Some ws"
    and "load_sheet st0 = (st, None)"
    and i: "i < length (rows_all st)"
    and q: "py_strip q \<noteq> []"
    and occ: "\<exists>ps ss. str_nat (Suc i) = ps @ py_strip q @ ss"
  shows "hd (rows_all st ! i) = str_nat (Suc i) \<and>
         rows_all st ! i \<in> set (rows_view (apply_filter lower (st\<lparr>filter_var := q\<rparr>)))"
proof -
  from loaded_rows(3) [OF assms(3-5) i]
  obtain cells where r: "rows_all st ! i = str_nat (Suc i) # cells" by blast
  from occ obtain ps ss where o: "str_nat (Suc i) = ps @ py_strip q @ ss" by blast
  have "list_all is_digit (ps @ py_strip q @ ss)" using digits_str_nat [of "Suc i"] by (simp only: o)
  then have dq: "list_all is_digit (py_strip q)" by simp
  have lq: "lower (py_strip q) = py_strip q" using lowd [OF dq, of "[]"] low0 by simp
  define rest where "rest = (if cells = [] then [] else [9] @ py_join [9] cells)"
  have "lower (py_join [9] (rows_all st ! i)) = str_nat (Suc i) @ lower rest"
    using lowd [OF digits_str_nat, of "Suc i" rest] by (simp add: r py_join_Cons rest_def)
  also have "\<dots> = ps @ lower (py_strip q) @ (ss @ lower rest)" by (simp add: o lq)
  finally have "\<exists>ps ss. lower (py_join [9] (rows_all st ! i)) = ps @ lower (py_strip q) @ ss"
    by blast
  moreover have "rows_all st ! i \<in> set (rows_all st)" using i by simp
  ultimately show ?thesis by (simp add: apply_filter_view r)
qed

theorem filter_matches_row_number_witness:
  "ascii_lower [] = [] \<and> py_strip (u '' 3'') \<noteq> [] \<and>
   rows_all demo_loaded ! 2 = [[51], u ''Bob'', u ''Oslo'', u ''x 2''] \<and>
   rows_all demo_loaded ! 2 \<in> set (rows_view (apply_filter ascii_lower (demo_loaded\<lparr>filter_var := u '' 3''\<rparr>)))"
proof -
  have a: "wb demo_start = Some demo_book" by (simp add: demo_fields)
  have b: "demo_book (sheet_var demo_start) = Some demo_sheet" by (simp add: demo_fields)
  have c: "load_sheet demo_start = (demo_loaded, None)" by (simp add: demo_loaded_fields)
  have d: "lower_d (d @ t) = d @ lower_d t" if "lower_d = ascii_lower" "list_all is_digit d" for lower_d d t
  proof -
    from that(2) have "map (\<lambda>c. if 65 \<le> c \<and> c \<le> 90 then c + 32 else c) d = d"
      by (intro map_idI) (auto simp: list_all_iff is_digit_def)
    then show ?thesis by (simp add: that(1) ascii_lower_def)
  qed
  have i: "2 < length (rows_all demo_loaded)" by (simp add: demo_loaded_fields demo_rows_def)
  have s: "py_strip (u '' 3'') = [51]" by (simp add: py_strip_def py_isspace_def u_def)
  have q: "py_strip (u '' 3'') \<noteq> []" by (simp add: s)
  have "str_nat (Suc 2) = [] @ py_strip (u '' 3'') @ []" by (simp add: s str_nat.simps)
  then have occ: "\<exists>ps ss. str_nat (Suc 2) = ps @ py_strip (u '' 3'') @ ss" by blast
  have n: "str_nat 3 = [51]" by (simp add: str_nat.simps)
  have r: "rows_all demo_loaded ! 2 = [[51], u ''Bob'', u ''Oslo'', u ''x 2'']"
    by (simp add: demo_loaded_fields demo_rows_def)
  from filter_matches_row_number [of ascii_lower, OF ascii_lower_Nil d [OF refl] a b c i q occ]
    r q n ascii_lower_Nil show ?thesis by simp
qed

section \<open>Sorting\<close>

lemma py_sort_stable:
  "filter (\<lambda>y. k y = c) (py_sort k r xs) = filter (\<lambda>y. k y = c) xs"
proof (cases r)
  case False
  then show ?thesis by (simp add: py_sort_def sort_key_stable)
next
  case True
  have "filter (\<lambda>y. k y = c) (rev (sort_key k (rev xs))) = rev (filter (\<lambda>y. k y = c) (sort_key k (rev xs)))"
    by (simp only: rev_filter)
  also have "\<dots> = rev (filter (\<lambda>y. k y = c) (rev xs))" by (simp only: sort_key_stable)
  also have "\<dots> = filter (\<lambda>y. k y = c) xs" by (simp only: rev_filter rev_rev_ident)
  finally show ?thesis using True by (simp add: py_sort_def)
qed

lemma map_sort_key: "map k (sort_key k xs) = sort (map k xs)"
proof -
  have "mset (map k (sort_key k xs)) = mset (map k xs)" by simp
  moreover have "sorted (map k (sort_key k xs))" by (rule sorted_sort_key)
  ultimately show ?thesis by (rule properties_for_sort [symmetric])
qed

lemma sort_rev: "sort (rev xs) = sort xs"
  by (rule properties_for_sort) simp_all

lemma py_sort_ascending: "sorted (map k (py_sort k False xs))"
  by (simp add: py_sort_def)

lemma py_sort_twice_keys:
  "map k (py_sort k True (py_sort k False xs)) = rev (map k (py_sort k False xs))"
proof -
  define A where "A = sort_key k xs"
  have sa: "sorted (map k A)" by (simp add: A_def)
  have "map k (rev (sort_key k (rev A))) = rev (map k (sort_key k (rev A)))"
    by (simp add: rev_map)
  also have "\<dots> = rev (sort (map k (rev A)))" by (simp only: map_sort_key)
  also have "\<dots> = rev (sort (rev (map k A)))" by (simp add: rev_map)
  also have "\<dots> = rev (sort (map k A))" by (simp only: sort_rev)
  also have "\<dots> = rev (map k A)" using sa by (simp only: sorted_sort_id)
  finally show ?thesis by (simp add: py_sort_def A_def)
qed

lemma py_sort_twice_distinct:
  assumes "distinct (map k xs)"
  shows "py_sort k True (py_sort k False xs) = rev (py_sort k False xs)"
proof -
  define A where "A = py_sort k False xs"
  define D where "D = py_sort k True A"
  have "mset (map k A) = mset (map k xs)" by (simp add: A_def)
  then have "distinct (map k A)" using assms by (metis distinct_count_atmost_1 set_mset_mset)
  then have inj: "inj_on k (set A)" by (simp add: distinct_map)
  have "set D = set A" by (metis D_def mset_py_sort set_mset_mset)
  then have "inj_on k (set D \<union> set (rev A))" using inj by simp
  moreover have "map k D = map k (rev A)"
    unfolding D_def A_def by (simp only: py_sort_twice_keys rev_map)
  ultimately have "D = rev A" by (simp only: inj_on_map_eq_map)
  then show ?thesis by (simp only: D_def A_def)
qed

lemma sort_by_column_view:
  "rows_view (fst (sort_by_column lower to_int col st)) =
     (if rows_view st = [] then []
      else if col = 0
        then py_sort (key_func_0 to_int) (sort_state st col = Some False) (rows_view st)
        else py_sort (key_func lower col) (sort_state st col = Some False) (rows_view st))"
  by (auto simp add: sort_by_column_def Let_def split: option.splits)

lemma sort_by_column_state:
  "sort_state (fst (sort_by_column lower to_int col st)) =
     (if rows_view st = [] then sort_state st
      else (sort_state st)(col \<mapsto> (sort_state st col = Some False)))"
  by (auto simp add: sort_by_column_def Let_def split: option.splits)

lemma demo_loaded_sort_state: "sort_state demo_loaded = Map.empty"
  by (simp add: demo_loaded_def demo_load)

text \<open>
  C3. Sorting by a column is stable: the rows whose key equals that of any given row stand
  in the same order after a header click as before it, for either direction, and the
  rows are only rearranged. When the column's remembered direction is ascending (as it is
  after a load), the first click sorts the keys into ascending order and the second click
  on the same column gives the keys in exactly the reverse order; rows with equal keys
  keep their order (by stability) instead of being reversed, so the second view is the
  reverse of the first whenever the keys are pairwise distinct.
\<close>

theorem sort_by_column_stable:
  "filter (same_key lower to_int col r) (rows_view (fst (sort_by_column lower to_int col st)))
     = filter (same_key lower to_int col r) (rows_view st) \<and>
   mset (rows_view (fst (sort_by_column lower to_int col st))) = mset (rows_view st) \<and>
   (sort_state st col \<noteq> Some False \<longrightarrow>
      (let st1 = fst (sort_by_column lower to_int col st);
           st2 = fst (sort_by_column lower to_int col st1)
       in keys_ascending lower to_int col (rows_view st1) \<and>
          keys_reversed lower to_int col (rows_view st1) (rows_view st2) \<and>
          (distinct_keys lower to_int col (rows_view st) \<longrightarrow>
             rows_view st2 = rev (rows_view st1))))"
proof -
  define st1 where "st1 = fst (sort_by_column lower to_int col st)"
  define st2 where "st2 = fst (sort_by_column lower to_int col st1)"
  have stable: "filter (same_key lower to_int col r) (rows_view st1)
     = filter (same_key lower to_int col r) (rows_view st)"
    unfolding st1_def same_key_def
    by (cases "col = 0") (simp_all add: sort_by_column_view py_sort_stable)
  have perm: "mset (rows_view st1) = mset (rows_view st)"
    by (simp add: st1_def)
  have twice: "keys_ascending lower to_int col (rows_view st1) \<and>
          keys_reversed lower to_int col (rows_view st1) (rows_view st2) \<and>
          (distinct_keys lower to_int col (rows_view st) \<longrightarrow>
             rows_view st2 = rev (rows_view st1))"
    if asc: "sort_state st col \<noteq> Some False"
  proof (cases "rows_view st = []")
    case True
    then have "rows_view st1 = []" "rows_view st2 = []"
      by (simp_all add: st1_def st2_def sort_by_column_view)
    then show ?thesis by (simp add: keys_ascending_def keys_reversed_def)
  next
    case False
    have ne: "rows_view st1 \<noteq> []" using perm False by (metis mset_zero_iff)
    have s1: "sort_state st1 col = Some False"
      using False asc by (simp add: st1_def sort_by_column_state)
    show ?thesis
    proof (cases "col = 0")
      case True
      have v1: "rows_view st1 = py_sort (key_func_0 to_int) False (rows_view st)"
        using False asc True by (simp add: st1_def sort_by_column_view)
      have v2: "rows_view st2 = py_sort (key_func_0 to_int) True (rows_view st1)"
        using ne s1 True by (simp add: st2_def sort_by_column_view)
      show ?thesis
        using True
        by (simp add: keys_ascending_def keys_reversed_def distinct_keys_def v2)
           (simp add: v1 py_sort_ascending py_sort_twice_keys py_sort_twice_distinct)
    next
      case c: False
      have v1: "rows_view st1 = py_sort (key_func lower col) False (rows_view st)"
        using False asc c by (simp add: st1_def sort_by_column_view)
      have v2: "rows_view st2 = py_sort (key_func lower col) True (rows_view st1)"
        using ne s1 c by (simp add: st2_def sort_by_column_view)
      show ?thesis
        using c
        by (simp add: keys_ascending_def keys_reversed_def distinct_keys_def v2)
           (simp add: v1 py_sort_ascending py_sort_twice_keys py_sort_twice_distinct)
    qed
  qed
  from stable perm twice show ?thesis
    unfolding st1_def st2_def Let_def by blast
qed

lemma demo_sorted_once:
  "rows_view (fst (sort_by_column ascii_lower dec_int 2 demo_loaded)) =
     [[[49], u ''Name'', u ''City'', u ''Note''],
      [[51], u ''Bob'', u ''Oslo'', u ''x 2''],
      [[50], u ''Ada'', u ''Paris'', []]]"
  by (simp add: sort_by_column_view demo_loaded_fields demo_loaded_sort_state py_sort_def
      demo_rows_def key_func_def ascii_lower_def u_def)

theorem sort_by_column_stable_witness:
  "sort_state demo_loaded 2 \<noteq> Some False \<and>
   distinct_keys ascii_lower dec_int 2 (rows_view demo_loaded) \<and>
   rows_view (fst (sort_by_column ascii_lower dec_int 2 demo_loaded)) =
     [[[49], u ''Name'', u ''City'', u ''Note''],
      [[51], u ''Bob'', u ''Oslo'', u ''x 2''],
      [[50], u ''Ada'', u ''Paris'', []]] \<and>
   rows_view (fst (sort_by_column ascii_lower dec_int 2
       (fst (sort_by_column ascii_lower dec_int 2 demo_loaded)))) =
     rev (rows_view (fst (sort_by_column ascii_lower dec_int 2 demo_loaded)))"
proof -
  have a: "sort_state demo_loaded 2 \<noteq> Some False" by (simp add: demo_loaded_sort_state)
  have d: "distinct_keys ascii_lower dec_int 2 (rows_view demo_loaded)"
    by (simp add: distinct_keys_def demo_loaded_fields demo_rows_def key_func_def
        ascii_lower_def u_def)
  from sort_by_column_stable [of ascii_lower dec_int 2 "[]" demo_loaded] a d
  have "rows_view (fst (sort_by_column ascii_lower dec_int 2
       (fst (sort_by_column ascii_lower dec_int 2 demo_loaded)))) =
     rev (rows_view (fst (sort_by_column ascii_lower dec_int 2 demo_loaded)))"
    by (simp add: Let_def)
  with a d demo_sorted_once show ?thesis by simp
qed

section \<open>Loading a sheet\<close>

lemma update_status_more [simp]:
  "wb (update_status e st) = wb st"
  "sheet_var (update_status e st) = sheet_var st"
  "engines (update_status e st) = engines st"
  "engine_var (update_status e st) = engine_var st"
  by (simp_all add: update_status_def Let_def)

lemma render_table_more [simp]:
  "wb (render_table st) = wb st"
  "sheet_var (render_table st) = sheet_var st"
  "engines (render_table st) = engines st"
  "engine_var (render_table st) = engine_var st"
  by (simp_all add: render_table_def)

lemma load_sheet_resets_fields:
  assumes "wb st0 = Some book" and "book (sheet_var st0) = Some ws"
    and "load_sheet st0 = (st, None)"
  shows "sort_state st = Map.empty" "filter_var st = []" "tree_selection st = None"
    "rc_col_index st = rc_col_index st0" "tree_items st = rows_all st"
  using load_sheet_loaded [OF assms] by auto

lemma demo_clicked_fields:
  "wb demo_clicked = Some demo_book" "sheet_var demo_clicked = u ''Sheet1''"
  "rc_col_index demo_clicked = Some 2" "tree_selection demo_clicked = Some 1"
proof -
  have d: "dec_int (drop (Suc 0) (u ''#3'')) = Some 3"
    by (simp add: dec_int_def u_def is_digit_def dec_value_def)
  show "wb demo_clicked = Some demo_book" "sheet_var demo_clicked = u ''Sheet1''"
    by (simp_all add: demo_clicked_def on_right_click_def demo_loaded_def demo_load demo_fields)
  have n: "u ''#3'' \<noteq> []" by (simp add: u_def)
  show "rc_col_index demo_clicked = Some 2" "tree_selection demo_clicked = Some 1"
    using n by (simp_all add: demo_clicked_def on_right_click_def d)
qed

lemma demo_clicked_load:
  "load_sheet demo_clicked =
     (update_status [] (render_table (demo_clicked\<lparr>headers := [u ''#'', [65], [66], [67]],
        rows_all := demo_rows, rows_view := demo_rows, filter_var := [], sort_state := Map.empty\<rparr>)), None)"
  by (simp only: load_sheet_def demo_clicked_fields demo_fields option.case Let_def demo_trim
      demo_letters sum.case demo_values demo_number demo_rows_def)

text \<open>
  C4, as amended. Loading a sheet resets \<open>rows_view\<close> to \<open>rows_all\<close>, empties the sort
  state and the filter text, and leaves no row selected (the grid is rebuilt). The column
  reference of an earlier right-click is not cleared: it has after the load the value it
  had before.
\<close>

theorem load_sheet_resets:
  assumes "wb st0 = Some book" and "book (sheet_var st0) = Some ws"
    and "load_sheet st0 = (st, None)"
  shows "rows_view st = rows_all st \<and> sort_state st = Map.empty \<and> filter_var st = [] \<and>
         tree_selection st = None \<and> tree_items st = rows_all st \<and>
         rc_col_index st = rc_col_index st0"
  using loaded_rows(2) [OF assms] load_sheet_resets_fields [OF assms] by simp

theorem load_sheet_resets_witness:
  "wb demo_clicked = Some demo_book \<and> demo_book (sheet_var demo_clicked) = Some demo_sheet \<and>
   load_sheet demo_clicked = (fst (load_sheet demo_clicked), None) \<and>
   tree_selection demo_clicked = Some 1 \<and>
   tree_selection (fst (load_sheet demo_clicked)) = None \<and>
   rows_view (fst (load_sheet demo_clicked)) = demo_rows \<and>
   rc_col_index (fst (load_sheet demo_clicked)) = Some 2"
proof -
  have a: "wb demo_clicked = Some demo_book" by (simp add: demo_clicked_fields)
  have b: "demo_book (sheet_var demo_clicked) = Some demo_sheet"
    by (simp add: demo_clicked_fields demo_fields)
  have c: "load_sheet demo_clicked = (fst (load_sheet demo_clicked), None)"
    by (simp add: demo_clicked_load)
  have d: "rows_all (fst (load_sheet demo_clicked)) = demo_rows" by (simp add: demo_clicked_load)
  from load_sheet_resets [OF a b c] a b c d show ?thesis by (simp add: demo_clicked_fields)
qed

text \<open>
  C4 as stated fails: after a right-click in the third displayed column the column
  reference is 2, and it is still 2 after the sheet is loaded again.
\<close>

theorem load_sheet_column_reference_counterexample:
  "rc_col_index demo_clicked = Some 2 \<and>
   snd (load_sheet demo_clicked) = None \<and>
   rc_col_index (fst (load_sheet demo_clicked)) = Some 2 \<and>
   rc_col_index (fst (load_sheet demo_clicked)) \<noteq> None"
  by (simp add: demo_clicked_load demo_clicked_fields)

lemma col_empty_iff: "col_empty vs ci \<longleftrightarrow> (\<forall>r\<in>set vs. ci < length r \<longrightarrow> r ! ci = [])"
  by (induction vs) auto

lemma trim_last_col_le: "trim_last_col vs n \<le> n"
  by (induction n) auto

lemma trim_last_col_dropped:
  "trim_last_col vs n \<le> ci \<Longrightarrow> ci < n \<Longrightarrow> col_empty vs ci"
proof (induction n)
  case 0
  then show ?case by simp
next
  case (Suc n)
  show ?case
  proof (cases "col_empty vs n")
    case True
    with Suc show ?thesis by (cases "ci = n") auto
  next
    case False
    with Suc.prems show ?thesis by simp
  qed
qed

lemma trim_last_col_stops:
  "0 < trim_last_col vs n \<Longrightarrow> \<not> col_empty vs (trim_last_col vs n - 1)"
  by (induction n) auto

lemma collect_column_letters:
  "\<forall>x\<in>set xs. 1 \<le> x \<and> x \<le> 18278 \<Longrightarrow>
   collect get_column_letter xs = Inr (map column_letters xs)"
  by (induction xs) (simp_all add: get_column_letter_def)

lemma load_sheet_succeeds:
  assumes "wb st0 = Some book" and "book (sheet_var st0) = Some ws"
    and "kept_columns ws \<le> 18278"
  shows "load_sheet st0 =
     (update_status []
        (render_table
           (st0\<lparr>headers := u ''#'' # map column_letters [1..<Suc (kept_columns ws)],
                rows_all := number_rows (map (take (kept_columns ws)) (cell_rows ws)),
                rows_view := number_rows (map (take (kept_columns ws)) (cell_rows ws)),
                filter_var := [],
                sort_state := Map.empty\<rparr>)), None)"
proof -
  have "\<forall>x\<in>set [1..<Suc (kept_columns ws)]. 1 \<le> x \<and> x \<le> 18278"
    using assms(3) by auto
  then have c: "collect get_column_letter [1..<Suc (trim_last_col (cell_rows ws) (max_column ws))]
      = Inr (map column_letters [1..<Suc (kept_columns ws)])"
    unfolding kept_columns_def by (rule collect_column_letters)
  show ?thesis
    by (simp only: load_sheet_def assms(1,2) option.case Let_def c sum.case kept_columns_def)
qed

lemma letters_ABC: "map column_letters [1..<Suc 3] = [u ''A'', u ''B'', u ''C'']"
  by (simp add: upt_rec column_letters.simps u_def)

lemma demo_kept: "kept_columns demo_sheet = 3"
  by (simp add: kept_columns_def demo_trim)

text \<open>
  What the trimming does on a sheet with a recorded dimension, where every row has at most
  \<open>max_column\<close> cells (and at most 18278 columns are kept, the range of
  \<open>get_column_letter\<close>): the load succeeds; every row is cut to the kept columns; every
  column from the first dropped one on is empty or absent in every row; the last kept
  column, if any, has a non-empty cell in some row; the headers are \<open>#\<close> followed by the
  letters of the kept columns. With five columns of which D and E are empty in every row
  and C is not, the headers are \<open>#, A, B, C\<close>.
\<close>

lemma load_sheet_trims_sized:
  assumes "wb st0 = Some book" and "book (sheet_var st0) = Some ws"
    and "kept_columns ws \<le> 18278"
    and "\<forall>r\<in>set (cell_rows ws). length r \<le> max_column ws"
  shows "snd (load_sheet st0) = None \<and>
         headers (fst (load_sheet st0)) = u ''#'' # map column_letters [1..<Suc (kept_columns ws)] \<and>
         rows_all (fst (load_sheet st0)) = number_rows (map (take (kept_columns ws)) (cell_rows ws)) \<and>
         kept_columns ws \<le> max_column ws \<and>
         (\<forall>ci \<ge> kept_columns ws. \<forall>r\<in>set (cell_rows ws). ci < length r \<longrightarrow> r ! ci = []) \<and>
         (0 < kept_columns ws \<longrightarrow>
            (\<exists>r\<in>set (cell_rows ws). kept_columns ws - 1 < length r \<and> r ! (kept_columns ws - 1) \<noteq> [])) \<and>
         (max_column ws = 5 \<and>
          (\<forall>r\<in>set (cell_rows ws). (3 < length r \<longrightarrow> r ! 3 = []) \<and> (4 < length r \<longrightarrow> r ! 4 = [])) \<and>
          (\<exists>r\<in>set (cell_rows ws). 2 < length r \<and> r ! 2 \<noteq> []) \<longrightarrow>
            headers (fst (load_sheet st0)) = [u ''#'', u ''A'', u ''B'', u ''C''])"
proof -
  note ld = load_sheet_succeeds [OF assms(1-3)]
  have le: "kept_columns ws \<le> max_column ws"
    unfolding kept_columns_def by (rule trim_last_col_le)
  have dropped: "r ! ci = []"
    if "kept_columns ws \<le> ci" "r \<in> set (cell_rows ws)" "ci < length r" for ci r
  proof -
    from that(2,3) assms(4) have "ci < max_column ws" by fastforce
    with that(1) have "col_empty (cell_rows ws) ci"
      unfolding kept_columns_def by (rule trim_last_col_dropped)
    with that(2,3) show ?thesis by (simp add: col_empty_iff)
  qed
  have stops: "\<exists>r\<in>set (cell_rows ws). kept_columns ws - 1 < length r \<and> r ! (kept_columns ws - 1) \<noteq> []"
    if "0 < kept_columns ws"
    using trim_last_col_stops [of "cell_rows ws" "max_column ws"] that
    by (simp add: kept_columns_def col_empty_iff)
  have abc: "headers (fst (load_sheet st0)) = [u ''#'', u ''A'', u ''B'', u ''C'']"
    if m: "max_column ws = 5"
      and e: "\<forall>r\<in>set (cell_rows ws). (3 < length r \<longrightarrow> r ! 3 = []) \<and> (4 < length r \<longrightarrow> r ! 4 = [])"
      and c: "\<exists>r\<in>set (cell_rows ws). 2 < length r \<and> r ! 2 \<noteq> []"
  proof -
    from e have e3: "col_empty (cell_rows ws) 3" and e4: "col_empty (cell_rows ws) 4"
      by (simp_all add: col_empty_iff)
    from c have c2: "\<not> col_empty (cell_rows ws) 2" by (simp add: col_empty_iff)
    have "kept_columns ws = 3"
      using e3 e4 c2 by (simp add: kept_columns_def m eval_nat_numeral)
    then show ?thesis using letters_ABC by (simp add: ld del: upt_Suc)
  qed
  from le dropped stops abc show ?thesis by (simp add: ld)
qed

lemma load_sheet_trims_sized_demo:
  "wb demo_start = Some demo_book \<and> demo_book (sheet_var demo_start) = Some demo_sheet \<and>
   kept_columns demo_sheet \<le> 18278 \<and>
   list_all (\<lambda>r. length r \<le> max_column demo_sheet) (cell_rows demo_sheet) \<and>
   max_column demo_sheet = 5 \<and> kept_columns demo_sheet = 3 \<and>
   headers (fst (load_sheet demo_start)) = [u ''#'', u ''A'', u ''B'', u ''C'']"
proof -
  have a: "wb demo_start = Some demo_book" by (simp add: demo_fields)
  have b: "demo_book (sheet_var demo_start) = Some demo_sheet" by (simp add: demo_fields)
  have c: "kept_columns demo_sheet \<le> 18278" by (simp add: demo_kept)
  have d: "\<forall>r\<in>set (cell_rows demo_sheet). length r \<le> max_column demo_sheet"
    by (simp add: demo_sheet_def)
  have m: "max_column demo_sheet = 5" by (simp add: demo_sheet_def)
  have e: "\<forall>r\<in>set (cell_rows demo_sheet). (3 < length r \<longrightarrow> r ! 3 = []) \<and> (4 < length r \<longrightarrow> r ! 4 = [])"
    by (simp add: demo_sheet_def)
  have f: "\<exists>r\<in>set (cell_rows demo_sheet). 2 < length r \<and> r ! 2 \<noteq> []"
    by (simp add: demo_sheet_def u_def)
  from load_sheet_trims_sized [OF a b c d] m e f
  have "headers (fst (load_sheet demo_start)) = [u ''#'', u ''A'', u ''B'', u ''C'']" by blast
  moreover from d have "list_all (\<lambda>r. length r \<le> max_column demo_sheet) (cell_rows demo_sheet)"
    by (simp add: list_all_iff)
  ultimately show ?thesis using a b c m demo_kept by blast
qed

lemma unsized_fields:
  "wb unsized_start = Some [u ''Sheet1'' \<mapsto> unsized_sheet]"
  "[u ''Sheet1'' \<mapsto> unsized_sheet] (sheet_var unsized_start) = Some unsized_sheet"
  "kept_columns unsized_sheet = 0"
  by (simp_all add: unsized_start_def demo_start_def kept_columns_def unsized_sheet_def)

text \<open>
  C5. The source comments the loop as trimming trailing empty columns. On a sheet without
  a recorded dimension \<open>max_col\<close> is 0: the loop does not run, every row is cut to no
  cells and the only header is \<open>#\<close>, although columns A to C hold text. The columns
  dropped are not the trailing empty ones.
\<close>

theorem load_sheet_unsized_drops_data:
  "max_column unsized_sheet = 0 \<and>
   cell_rows unsized_sheet ! 0 ! 2 = u ''Note'' \<and>
   snd (load_sheet unsized_start) = None \<and>
   headers (fst (load_sheet unsized_start)) = [u ''#''] \<and>
   rows_all (fst (load_sheet unsized_start)) = [[[49]], [[50]]]"
proof -
  have k: "kept_columns unsized_sheet \<le> 18278" by (simp add: unsized_fields)
  have v: "number_rows (map (take 0) (cell_rows unsized_sheet)) = [[[49]], [[50]]]"
    by (simp add: unsized_sheet_def number_rows_def upt_rec str_nat.simps)
  show ?thesis
    using v
    by (simp add: load_sheet_succeeds [OF unsized_fields(1,2) k] unsized_fields(3))
       (simp add: unsized_sheet_def)
qed

section \<open>The selected cell\<close>

lemma raw_default:
  "rc_col_index st = None \<Longrightarrow> get_selected_cell_text_raw st = first_data_cell st"
  by (auto simp add: get_selected_cell_text_raw_def first_data_cell_def Let_def)

lemma open_search_urls:
  "opened_urls (fst (open_search eng q extra st)) =
     (case make_search_url st eng q of Inl e \<Rightarrow> opened_urls st | Inr url \<Rightarrow> opened_urls st @ [url])"
  by (simp add: open_search_def split: sum.splits)

lemma demo_selected_values:
  "get_selected_values demo_selected = [[50], u ''Ada'', u ''Paris'', []]"
  by (simp add: demo_selected_def get_selected_values_def demo_loaded_def demo_load demo_rows_def)

text \<open>
  C10. While no right-click has chosen a column, the cell text of the selected row is its
  cell at index 1, the first data column after the row number, and the empty string if
  the row has no such cell. Copying, the full-text window, the three searches, the copy of
  the search URL and the preview of the status line all work on that text (the searches,
  the URL and the preview on its normalized form), and the status line names the header
  at index 1.
\<close>

theorem default_column_is_first_data_column:
  assumes "rc_col_index st = None"
  shows "get_selected_cell_text_raw st = first_data_cell st \<and>
         get_selected_cell_text st = normalize_query (first_data_cell st) \<and>
         (length (get_selected_values st) \<le> 1 \<longrightarrow> get_selected_cell_text_raw st = []) \<and>
         clipboard (copy_cell_text st) =
           (if first_data_cell st = [] then clipboard st else Some (first_data_cell st)) \<and>
         full_text (show_full_text st) =
           (if first_data_cell st = [] then full_text st else Some (first_data_cell st)) \<and>
         opened_urls (fst (search_with_engine eng st)) =
           (if normalize_query (first_data_cell st) = [] then opened_urls st
            else case make_search_url st eng (normalize_query (first_data_cell st)) of
                   Inl e \<Rightarrow> opened_urls st | Inr url \<Rightarrow> opened_urls st @ [url]) \<and>
         opened_urls (fst (search_default_engine st)) =
           (if normalize_query (first_data_cell st) = [] then opened_urls st
            else case make_search_url st (engine_var st) (normalize_query (first_data_cell st)) of
                   Inl e \<Rightarrow> opened_urls st | Inr url \<Rightarrow> opened_urls st @ [url]) \<and>
         clipboard (fst (copy_search_url st)) =
           (if normalize_query (first_data_cell st) = [] then clipboard st
            else case make_search_url st (engine_var st) (normalize_query (first_data_cell st)) of
                   Inl e \<Rightarrow> clipboard st | Inr url \<Rightarrow> Some url) \<and>
         opened_urls (fst (search_alt_engine st)) =
           (if normalize_query (first_data_cell st) = [] then opened_urls st
            else case alt_engine st of Inl e \<Rightarrow> opened_urls st
                 | Inr eng \<Rightarrow>
                     (case make_search_url st eng (normalize_query (first_data_cell st)) of
                        Inl e \<Rightarrow> opened_urls st | Inr url \<Rightarrow> opened_urls st @ [url])) \<and>
         (get_selected_values st \<noteq> [] \<longrightarrow>
            st_cell (status_var (update_status extra st)) =
              Some \<lparr>ci_row_no = hd (get_selected_values st),
                    ci_col_name = (if 1 < length (headers st) then headers st ! 1 else u ''?''),
                    ci_len = length (normalize_query (first_data_cell st)),
                    ci_preview = truncate_str (normalize_query (first_data_cell st)) 80\<rparr>)"
proof -
  note raw = raw_default [OF assms]
  have tx: "get_selected_cell_text st = normalize_query (first_data_cell st)"
    by (simp add: get_selected_cell_text_def raw)
  have short: "get_selected_cell_text_raw st = []" if "length (get_selected_values st) \<le> 1"
    using that by (simp add: raw first_data_cell_def)
  have copy: "clipboard (copy_cell_text st) =
           (if first_data_cell st = [] then clipboard st else Some (first_data_cell st))"
    by (simp add: copy_cell_text_def Let_def raw)
  have full: "full_text (show_full_text st) =
           (if first_data_cell st = [] then full_text st else Some (first_data_cell st))"
    by (simp add: show_full_text_def Let_def raw)
  have s1: "opened_urls (fst (search_with_engine eng st)) =
           (if normalize_query (first_data_cell st) = [] then opened_urls st
            else case make_search_url st eng (normalize_query (first_data_cell st)) of
                   Inl e \<Rightarrow> opened_urls st | Inr url \<Rightarrow> opened_urls st @ [url])"
    by (simp add: search_with_engine_def Let_def tx open_search_urls)
  have s2: "opened_urls (fst (search_default_engine st)) =
           (if normalize_query (first_data_cell st) = [] then opened_urls st
            else case make_search_url st (engine_var st) (normalize_query (first_data_cell st)) of
                   Inl e \<Rightarrow> opened_urls st | Inr url \<Rightarrow> opened_urls st @ [url])"
    by (simp add: search_default_engine_def Let_def tx open_search_urls)
  have s3: "clipboard (fst (copy_search_url st)) =
           (if normalize_query (first_data_cell st) = [] then clipboard st
            else case make_search_url st (engine_var st) (normalize_query (first_data_cell st)) of
                   Inl e \<Rightarrow> clipboard st | Inr url \<Rightarrow> Some url)"
    by (simp add: copy_search_url_def Let_def tx split: sum.splits)
  have s4: "opened_urls (fst (search_alt_engine st)) =
           (if normalize_query (first_data_cell st) = [] then opened_urls st
            else case alt_engine st of Inl e \<Rightarrow> opened_urls st
                 | Inr eng \<Rightarrow>
                     (case make_search_url st eng (normalize_query (first_data_cell st)) of
                        Inl e \<Rightarrow> opened_urls st | Inr url \<Rightarrow> opened_urls st @ [url]))"
    by (simp add: search_alt_engine_def Let_def tx open_search_urls split: sum.splits)
  have status: "st_cell (status_var (update_status extra st)) =
              Some \<lparr>ci_row_no = hd (get_selected_values st),
                    ci_col_name = (if 1 < length (headers st) then headers st ! 1 else u ''?''),
                    ci_len = length (normalize_query (first_data_cell st)),
                    ci_preview = truncate_str (normalize_query (first_data_cell st)) 80\<rparr>"
    if "get_selected_values st \<noteq> []"
    using that assms by (simp add: update_status_def Let_def tx)
  from raw tx short copy full s1 s2 s3 s4 status show ?thesis by blast
qed

theorem default_column_is_first_data_column_witness:
  "rc_col_index demo_selected = None \<and>
   get_selected_values demo_selected = [[50], u ''Ada'', u ''Paris'', []] \<and>
   get_selected_cell_text_raw demo_selected = u ''Ada'' \<and>
   clipboard (copy_cell_text demo_selected) = Some (u ''Ada'')"
proof -
  have a: "rc_col_index demo_selected = None"
    by (simp add: demo_selected_def demo_loaded_def demo_load) (simp add: demo_start_def)
  have f: "first_data_cell demo_selected = u ''Ada''"
    by (simp add: first_data_cell_def demo_selected_values)
  have n: "u ''Ada'' \<noteq> []" by (simp add: u_def)
  from default_column_is_first_data_column [OF a] f n demo_selected_values a
  show ?thesis by simp
qed

section \<open>The URL builder\<close>















section \<open>The engine registry\<close>















end
